theory Spec2Isabelle
  imports Main
begin

section \<open>Strings of the source language\<close>

text \<open>
  A Python \<open>str\<close> is a sequence of Unicode code points, so a string is modelled as a
  list of code points (natural numbers). \<open>py ''abc''\<close> is the string of an ASCII
  literal; the backslash, which a HOL literal cannot contain, is the one-character
  string \<open>bs\<close>.
\<close>

type_synonym pystr = "nat list"

abbreviation py :: "string \<Rightarrow> pystr" where
  "py s \<equiv> map of_char s"

definition bs :: pystr where
  "bs = [92]"

text \<open>\<open>s.replace(old, new)\<close> for a one-character \<open>old\<close>: every occurrence is replaced.\<close>

definition replace_char :: "nat \<Rightarrow> pystr \<Rightarrow> pystr \<Rightarrow> pystr" where
  "replace_char old new s = concat (map (\<lambda>c. if c = old then new else [c]) s)"

text \<open>
  The characters removed by \<open>str.strip()\<close>, \<open>str.rstrip()\<close> without argument: those for
  which \<open>str.isspace\<close> holds (tab to carriage return, the separators 0x1C to 0x1F, space,
  NEL, the no-break space, and the Unicode space separators).
\<close>

definition isspace :: "nat \<Rightarrow> bool" where
  "isspace c \<longleftrightarrow>
     (9 \<le> c \<and> c \<le> 13) \<or> (28 \<le> c \<and> c \<le> 32) \<or> c = 133 \<or> c = 160 \<or> c = 5760 \<or>
     (8192 \<le> c \<and> c \<le> 8202) \<or> c = 8232 \<or> c = 8233 \<or> c = 8239 \<or> c = 8287 \<or> c = 12288"

definition lstrip :: "pystr \<Rightarrow> pystr" where
  "lstrip s = dropWhile isspace s"

definition rstrip :: "pystr \<Rightarrow> pystr" where
  "rstrip s = rev (dropWhile isspace (rev s))"

definition strip :: "pystr \<Rightarrow> pystr" where
  "strip s = lstrip (rstrip s)"

text \<open>\<open>s.lstrip(' ')\<close>: only the space character is removed.\<close>

definition lstrip_space :: "pystr \<Rightarrow> pystr" where
  "lstrip_space s = dropWhile (\<lambda>c. c = 32) s"

text \<open>
  \<open>s.split(sep, 1)\<close> for a non-empty separator: the string is cut at the leftmost
  occurrence of \<open>sep\<close>, if there is one.
\<close>

fun cut_first :: "pystr \<Rightarrow> pystr \<Rightarrow> (pystr \<times> pystr) option" where
  "cut_first sep [] = None"
| "cut_first sep (c # cs) =
     (if take (length sep) (c # cs) = sep then Some ([], drop (length sep) (c # cs))
      else case cut_first sep cs of
             None \<Rightarrow> None
           | Some (before, after) \<Rightarrow> Some (c # before, after))"

definition split1 :: "pystr \<Rightarrow> pystr \<Rightarrow> pystr list" where
  "split1 sep s = (case cut_first sep s of None \<Rightarrow> [s] | Some (before, after) \<Rightarrow> [before, after])"

text \<open>\<open>sep.join(xs)\<close>.\<close>

fun join :: "pystr \<Rightarrow> pystr list \<Rightarrow> pystr" where
  "join sep [] = []"
| "join sep [x] = x"
| "join sep (x # y # ys) = x @ sep @ join sep (y # ys)"

text \<open>The decimal digits of a natural number, as an f-string formats an \<open>int\<close>.\<close>

fun decimal :: "nat \<Rightarrow> pystr" where
  "decimal n = (if n < 10 then [48 + n] else decimal (n div 10) @ [48 + n mod 10])"

declare decimal.simps [simp del]

text \<open>
  A raw triple-quoted literal that starts and ends with a line break, given by its lines
  (the first, empty, line stands for the break after the opening quotes).
\<close>

definition text_lines :: "pystr list \<Rightarrow> pystr" where
  "text_lines ls = concat (map (\<lambda>l. l @ [10]) ls)"

section \<open>Configuration and templates\<close>

definition INDENT_SPACES :: nat where
  "INDENT_SPACES = 4"

definition LEVEL_1_ANGLES :: "nat list" where
  "LEVEL_1_ANGLES = [150, 30, 270, 210, 90, 330]"

definition LATEX_START_TEMPLATE :: pystr where
  "LATEX_START_TEMPLATE = text_lines
    [[],
     bs @ py ''documentclass[11pt, a4paper]{article}'',
     bs @ py ''usepackage[a4paper, margin=1in]{geometry}'',
     bs @ py ''usepackage{tikz}'',
     bs @ py ''usepackage{fontspec}'',
     bs @ py ''usepackage[english]{babel}'',
     bs @ py ''usepackage{longtable} '',
     bs @ py ''usepackage{booktabs}'',
     [],
     py ''% Use Noto Sans for clean, modern look'',
     bs @ py ''babelfont{rm}{Noto Sans} '',
     [],
     py ''% FIXED: Loaded 'babel' library to prevent conflicts with TikZ syntax'',
     bs @ py ''usetikzlibrary{mindmap, trees, shadows, babel}'',
     [],
     bs @ py ''pagestyle{empty} '',
     [],
     bs @ py ''begin{document}'',
     bs @ py ''centering'',
     bs @ py ''section*{Project Phases Mind Map}'',
     [],
     bs @ py ''begin{tikzpicture}['',
     py ''    mindmap,'',
     py ''    grow cyclic, '',
     py ''    text=white,'',
     py ''    concept color=blue!70!black, '',
     py ''    every node/.style={concept, minimum width=2.5cm, align=center, font='' @ bs @ py ''large},'',
     py ''    level 1 concept/.append style={'',
     py ''        level distance=4cm, '',
     py ''        sibling angle=120, '',
     py ''        concept color=red!70, '',
     py ''        font='' @ bs @ py ''Large'' @ bs @ py ''bfseries'',
     py ''    },'',
     py ''    level 2 concept/.append style={'',
     py ''        level distance=3.5cm, '',
     py ''        sibling angle=60, '',
     py ''        concept color=orange!70,'',
     py ''        font='' @ bs @ py ''large'' @ bs @ py ''sffamily'',
     py ''    },'',
     py ''    level 3 concept/.append style={'',
     py ''        level distance=3cm, '',
     py ''        sibling angle=45, '',
     py ''        concept color=green!70!black,'',
     py ''        font='' @ bs @ py ''small'' @ bs @ py ''sffamily'',
     py ''    },'',
     py '']'',
     [],
     py ''  % START OF TIKZ NODES'']"

definition TIKZ_END :: pystr where
  "TIKZ_END = text_lines
    [[],
     py ''  ; % End of the main node structure'',
     [],
     bs @ py ''end{tikzpicture}'',
     [],
     bs @ py ''vspace{0.5in}'',
     bs @ py ''footnotesize'',
     bs @ py ''textit{This mind map was generated from an indented text file using a Python script.}'']"

definition LATEX_END :: pystr where
  "LATEX_END = text_lines
    [[],
     [],
     bs @ py ''end{document}'']"

section \<open>The table renderer\<close>

text \<open>
  \<open>generate_latex_table\<close>: the sixteen fixed lines of the table head, two lines for every
  item (the row and its rule), three closing lines; the result is the lines joined by
  line breaks, between two line breaks. An item of \<open>data\<close> is the pair of its
  \<open>'node'\<close> and \<open>'desc'\<close> entries.
\<close>

definition table_head :: "pystr list" where
  "table_head =
    [bs @ py ''newpage'',
     bs @ py ''section*{Mind Map Node Descriptions}'',
     py ''{'' @ bs @ py ''centering'',
     bs @ py ''begin{longtable}{@'' @ py ''{} p{0.3'' @ bs @ py ''textwidth} p{0.6'' @ bs @ py ''textwidth} @'' @ py ''{}}'',
     py ''    '' @ bs @ py ''caption{Node Details and Descriptions} '' @ bs @ py ''label{tab:node_details} '' @ bs @ bs,
     py ''    '' @ bs @ py ''toprule'',
     py ''    '' @ bs @ py ''textbf{Node Name} & '' @ bs @ py ''textbf{Description} '' @ bs @ bs,
     py ''    '' @ bs @ py ''midrule'',
     py ''    '' @ bs @ py ''endfirsthead'',
     [],
     py ''    '' @ bs @ py ''multicolumn{2}{c}'',
     py ''    {'' @ bs @ py ''normalfont'' @ bs @ py ''textbf{'' @ bs @ py ''tablename~'' @ bs @ py ''thetable'' @ bs @ py '' -- continued}} '' @ bs @ bs,
     py ''    '' @ bs @ py ''toprule'',
     py ''    '' @ bs @ py ''textbf{Node Name} & '' @ bs @ py ''textbf{Description} '' @ bs @ bs,
     py ''    '' @ bs @ py ''midrule'',
     py ''    '' @ bs @ py ''endhead'']"

definition escape_cell :: "pystr \<Rightarrow> pystr" where
  "escape_cell s =
     replace_char 95 (bs @ py ''_'')
       (replace_char 37 (bs @ py ''%'')
         (replace_char 38 (bs @ py ''&'')
           (replace_char 92 (bs @ py ''textbackslash '') s)))"

definition table_row :: "pystr \<times> pystr \<Rightarrow> pystr list" where
  "table_row item =
     (let node_name = escape_cell (fst item);
          description = escape_cell (snd item)
      in [py ''    '' @ node_name @ py '' & '' @ description @ py '' '' @ bs @ bs,
          py ''    '' @ bs @ py ''midrule''])"

definition table_lines :: "(pystr \<times> pystr) list \<Rightarrow> pystr list" where
  "table_lines data =
     table_head @ concat (map table_row data) @
     [py ''    '' @ bs @ py ''bottomrule'', bs @ py ''end{longtable}'', py ''}'']"

definition generate_latex_table :: "(pystr \<times> pystr) list \<Rightarrow> pystr" where
  "generate_latex_table data = [10] @ join [10] (table_lines data) @ [10]"

section \<open>The outline parser\<close>

definition get_indentation_level :: "pystr \<Rightarrow> nat" where
  "get_indentation_level line =
     (let clean_line = replace_char 160 (py '' '') line;
          leading_spaces = length clean_line - length (lstrip_space clean_line)
      in leading_spaces div INDENT_SPACES)"

definition parse_line :: "pystr \<Rightarrow> pystr \<times> pystr" where
  "parse_line line =
     (let full_text = strip line;
          parts = split1 (py '' - '') full_text;
          concept_text = strip (hd parts);
          description = (if length parts > 1 then strip (parts ! 1) else [])
      in (concept_text, description))"

section \<open>The markup emitter\<close>

text \<open>
  The strings appended to \<open>tikz_nodes\<close> are of five shapes; a piece records the shape
  and the values formatted into it, and \<open>render\<close> is the string itself. Depths and
  counters are natural numbers: an indentation level is a quotient of a length, the
  depth is at least 1, and the subtraction \<open>current_depth - depth\<close> is only done under
  the test \<open>depth \<le> current_depth\<close>.
\<close>

datatype piece =
    Closing nat nat
  | ChildAngle nat nat
  | Child nat
  | Concept nat pystr
  | FinalClosing nat

definition indent :: "nat \<Rightarrow> pystr" where
  "indent n = concat (replicate n (py ''    ''))"

fun render :: "piece \<Rightarrow> pystr" where
  "render (Closing depth brackets_to_close) =
     indent depth @ concat (replicate brackets_to_close (py ''} '')) @ [10]"
| "render (ChildAngle depth angle) =
     indent depth @ py ''child[grow='' @ decimal angle @ py ''] {'' @ [10]"
| "render (Child depth) = indent depth @ py ''child {'' @ [10]"
| "render (Concept depth safe_concept) =
     indent (depth + 1) @ py ''node[concept] {'' @ safe_concept @ py ''}''"
| "render (FinalClosing current_depth) = concat (replicate current_depth (py ''} ''))"

record emitter =
  tikz_nodes :: "piece list"
  table_data :: "(pystr \<times> pystr) list"
  current_depth :: nat
  angle_index :: nat

text \<open>The body of the loop over \<open>lines[1:]\<close>; a blank line leaves the state as it is.\<close>

definition process_line :: "emitter \<Rightarrow> pystr \<Rightarrow> emitter" where
  "process_line st line0 =
     (let line = rstrip line0 in
      if strip line = [] then st
      else
        let raw_depth = get_indentation_level line;
            depth1 = max 1 raw_depth;
            depth = (if depth1 > current_depth st + 1 then current_depth st + 1 else depth1);
            (concept_text, description) = parse_line line;
            safe_concept =
              replace_char 95 (bs @ py ''_'')
                (replace_char 37 (bs @ py ''%'')
                  (replace_char 38 (bs @ py ''&'') concept_text));
            closing =
              (if depth \<le> current_depth st
               then [Closing depth ((current_depth st - depth) + 1)] else []);
            opening =
              (if depth = 1
               then [ChildAngle depth
                       (LEVEL_1_ANGLES ! (angle_index st mod length LEVEL_1_ANGLES))]
               else [Child depth])
        in \<lparr>tikz_nodes = tikz_nodes st @ closing @ opening @ [Concept depth safe_concept],
            table_data = table_data st @ [(concept_text, description)],
            current_depth = depth,
            angle_index = (if depth = 1 then angle_index st + 1 else angle_index st)\<rparr>)"

text \<open>The state before the loop: the root's table entry, no piece, depth 0.\<close>

definition root_state :: "pystr \<Rightarrow> emitter" where
  "root_state line0 =
     (let root_line = rstrip line0;
          (root_concept, root_description) = parse_line root_line
      in \<lparr>tikz_nodes = [], table_data = [(root_concept, root_description)],
          current_depth = 0, angle_index = 0\<rparr>)"

definition root_node_definition :: "pystr \<Rightarrow> pystr" where
  "root_node_definition line0 =
     (let root_line = rstrip line0;
          (root_concept, root_description) = parse_line root_line;
          safe_root = replace_char 37 (bs @ py ''%'') (replace_char 38 (bs @ py ''&'') root_concept);
          formatted_root = replace_char 32 (bs @ bs @ py '' '') safe_root
      in [10] @ py ''  '' @ bs @ py ''node[concept] { '' @ bs @ py ''textbf{'' @
         formatted_root @ py ''} }'')"

text \<open>The closing of the branches still open after the last line.\<close>

definition close_remaining :: "emitter \<Rightarrow> emitter" where
  "close_remaining st =
     (if current_depth st > 0
      then st\<lparr>tikz_nodes := tikz_nodes st @ [FinalClosing (current_depth st)]\<rparr>
      else st)"

text \<open>The state at the end of \<open>generate_tikz_code\<close>, for a non-empty list of lines.\<close>

definition emit :: "pystr list \<Rightarrow> emitter" where
  "emit lines = close_remaining (foldl process_line (root_state (hd lines)) (tl lines))"

definition generate_tikz_code :: "pystr list \<Rightarrow> pystr" where
  "generate_tikz_code lines =
     (if lines = [] then []
      else
        let st = emit lines;
            tikz_code_body = concat (map render (tikz_nodes st));
            latex_table = generate_latex_table (table_data st)
        in LATEX_START_TEMPLATE @ root_node_definition (hd lines) @ tikz_code_body @
           TIKZ_END @ latex_table @ LATEX_END)"

text \<open>
  The text \<open>main\<close> writes, as a function of the lines it has read: the emitter is not
  called on an empty list.
\<close>

definition full_latex :: "pystr list \<Rightarrow> pystr" where
  "full_latex input_lines =
     (if input_lines = [] then LATEX_START_TEMPLATE @ [10] @ LATEX_END
      else generate_tikz_code input_lines)"

section \<open>Vocabulary of the properties\<close>

text \<open>A blank line: the loop's test \<open>not line.strip()\<close>.\<close>

definition is_blank :: "pystr \<Rightarrow> bool" where
  "is_blank line \<longleftrightarrow> strip line = []"

text \<open>
  The depth as the specification words it: the leading spaces and no-break spaces are
  counted, the count is divided by 4, the quotient is raised to 1 and then lowered to
  one more than the depth of the node before.
\<close>

definition spec_leading_spaces :: "pystr \<Rightarrow> nat" where
  "spec_leading_spaces line = length (takeWhile (\<lambda>c. c = 32 \<or> c = 160) line)"

definition spec_depth :: "nat \<Rightarrow> pystr \<Rightarrow> nat" where
  "spec_depth previous_depth line =
     min (max 1 (spec_leading_spaces line div 4)) (previous_depth + 1)"

text \<open>The depths of a sequence of lines that are not blank, after a node of a given depth.\<close>

fun spec_depths :: "nat \<Rightarrow> pystr list \<Rightarrow> nat list" where
  "spec_depths previous_depth [] = []"
| "spec_depths previous_depth (line # rest) =
     spec_depth previous_depth line # spec_depths (spec_depth previous_depth line) rest"

text \<open>The pieces a call of \<open>process_line\<close> has appended.\<close>

definition appended :: "emitter \<Rightarrow> emitter \<Rightarrow> piece list" where
  "appended st st' = drop (length (tikz_nodes st)) (tikz_nodes st')"

text \<open>The pieces of a run; \<open>generate_tikz_code\<close> returns at once on no line.\<close>

definition emitted :: "pystr list \<Rightarrow> piece list" where
  "emitted lines = (if lines = [] then [] else tikz_nodes (emit lines))"

text \<open>
  Branches opened and branches closed by a piece: an opening piece holds one
  \<open>child ... {\<close>, a closing piece as many \<open>}\<close> as it says.
\<close>

fun opened :: "piece \<Rightarrow> nat" where
  "opened (ChildAngle depth angle) = 1"
| "opened (Child depth) = 1"
| "opened p = 0"

fun closed :: "piece \<Rightarrow> nat" where
  "closed (Closing depth brackets_to_close) = brackets_to_close"
| "closed (FinalClosing remaining) = remaining"
| "closed p = 0"

text \<open>The branch a piece opens: its depth and the angle it is tagged with, if any.\<close>

fun branch :: "piece \<Rightarrow> (nat \<times> nat option) list" where
  "branch (ChildAngle depth angle) = [(depth, Some angle)]"
| "branch (Child depth) = [(depth, None)]"
| "branch p = []"

definition branches :: "piece list \<Rightarrow> (nat \<times> nat option) list" where
  "branches ps = concat (map branch ps)"

text \<open>The depth of the branch a piece opens, and the pieces that open a branch of depth 1.\<close>

fun opening_depth :: "piece \<Rightarrow> nat option" where
  "opening_depth (ChildAngle depth angle) = Some depth"
| "opening_depth (Child depth) = Some depth"
| "opening_depth p = None"

definition top_level :: "piece list \<Rightarrow> piece list" where
  "top_level ps = filter (\<lambda>p. opening_depth p = Some 1) ps"

text \<open>
  What holds of the angles during a run: the branches of depth 1 opened so far carry
  the angles of the sequence in turn, \<open>angle_index\<close> counts them, and every other
  branch is deeper and carries none.
\<close>

definition angle_invariant :: "emitter \<Rightarrow> bool" where
  "angle_invariant st \<longleftrightarrow>
     filter (\<lambda>b. fst b = 1) (branches (tikz_nodes st))
       = map (\<lambda>k. (1, Some (LEVEL_1_ANGLES ! (k mod 6)))) [0..<angle_index st]
     \<and> (\<forall>b \<in> set (branches (tikz_nodes st)). fst b \<noteq> 1 \<longrightarrow> 1 < fst b \<and> snd b = None)"

text \<open>
  The depths of the nodes of a run: that of the root (the depth the loop starts from),
  then that of every content node emitted.
\<close>

fun concept_depth :: "piece \<Rightarrow> nat list" where
  "concept_depth (Concept depth safe_concept) = [depth]"
| "concept_depth p = []"

definition node_depths :: "pystr list \<Rightarrow> nat list" where
  "node_depths lines =
     current_depth (root_state (hd lines)) # concat (map concept_depth (tikz_nodes (emit lines)))"

text \<open>The escape of one character of a table cell, as the specification lists them.\<close>

definition spec_escape :: "nat \<Rightarrow> pystr" where
  "spec_escape c =
     (if c = 92 then bs @ py ''textbackslash ''
      else if c = 38 then bs @ py ''&''
      else if c = 37 then bs @ py ''%''
      else if c = 95 then bs @ py ''_''
      else [c])"

text \<open>The part of the text \<open>generate_tikz_code\<close> returns that stands before the table.\<close>

definition before_table :: "pystr list \<Rightarrow> pystr" where
  "before_table lines =
     LATEX_START_TEMPLATE @ root_node_definition (hd lines) @
     concat (map render (tikz_nodes (emit lines))) @ TIKZ_END"

text \<open>
  Two lines with the same label and the same indentation level: they differ at most in
  their descriptions and in how far inside a level they are indented.
\<close>

definition same_outline :: "pystr \<Rightarrow> pystr \<Rightarrow> bool" where
  "same_outline l l' \<longleftrightarrow>
     fst (parse_line l) = fst (parse_line l') \<and>
     get_indentation_level l = get_indentation_level l'"

text \<open>
  Two lines as read that differ only after their first delimiter: both are cut at the
  first \<open>" - "\<close> and have the same text before it, or neither has a delimiter and
  they are the same line.
\<close>

definition differ_after_delimiter :: "pystr \<Rightarrow> pystr \<Rightarrow> bool" where
  "differ_after_delimiter l l' \<longleftrightarrow>
     (case cut_first (py '' - '') l of
        None \<Rightarrow> l' = l
      | Some (pre, d) \<Rightarrow>
          (case cut_first (py '' - '') l' of
             None \<Rightarrow> False
           | Some (pre', d') \<Rightarrow> pre' = pre))"

text \<open>
  The same, where moreover the text before the delimiter is not blank and the two
  descriptions are both blank or both not blank.
\<close>

definition same_up_to_description :: "pystr \<Rightarrow> pystr \<Rightarrow> bool" where
  "same_up_to_description l l' \<longleftrightarrow>
     (case cut_first (py '' - '') l of
        None \<Rightarrow> l' = l
      | Some (pre, d) \<Rightarrow>
          (case cut_first (py '' - '') l' of
             None \<Rightarrow> False
           | Some (pre', d') \<Rightarrow>
               pre' = pre \<and> \<not> is_blank pre \<and> (is_blank d \<longleftrightarrow> is_blank d')))"

text \<open>\<open>sub in s\<close>: the string \<open>sub\<close> occurs in \<open>s\<close>.\<close>

fun contains :: "pystr \<Rightarrow> pystr \<Rightarrow> bool" where
  "contains sub [] = (sub = [])"
| "contains sub (c # cs) = (take (length sub) (c # cs) = sub \<or> contains sub cs)"

section \<open>Strings, indentation and the loop body\<close>

lemma rstrip_rstrip: "rstrip (rstrip s) = rstrip s"
  by (simp add: rstrip_def)

lemma strip_rstrip: "strip (rstrip s) = strip s"
  by (simp add: strip_def rstrip_rstrip)

lemma parse_line_rstrip: "parse_line (rstrip s) = parse_line s"
  by (simp add: parse_line_def strip_rstrip)

lemma rstrip_decomp: "\<exists>ws. s = rstrip s @ ws \<and> (\<forall>c \<in> set ws. isspace c)"
proof -
  have "rev s = takeWhile isspace (rev s) @ dropWhile isspace (rev s)" by simp
  then have "s = rev (dropWhile isspace (rev s)) @ rev (takeWhile isspace (rev s))"
    by (metis rev_append rev_rev_ident)
  moreover have "\<forall>c \<in> set (rev (takeWhile isspace (rev s))). isspace c"
    by (auto dest: set_takeWhileD)
  ultimately show ?thesis unfolding rstrip_def by blast
qed

lemma strip_nonempty_char: "strip s \<noteq> [] \<Longrightarrow> \<exists>c \<in> set (rstrip s). \<not> isspace c"
  by (auto simp: strip_def lstrip_def)

lemma replace_char_append:
  "replace_char old new (xs @ ys) = replace_char old new xs @ replace_char old new ys"
  by (simp add: replace_char_def)

lemma replace_char_Nil: "replace_char old new [] = []"
  by (simp add: replace_char_def)

lemma replace_char_Cons:
  "replace_char old new (c # cs) = (if c = old then new else [c]) @ replace_char old new cs"
  by (simp add: replace_char_def)

lemma replace_char_single: "replace_char old [new] s = map (\<lambda>c. if c = old then new else c) s"
  by (induction s) (simp_all add: replace_char_Nil replace_char_Cons)

lemma takeWhile_nbsp:
  "length (takeWhile (\<lambda>c. c = 32) (map (\<lambda>c::nat. if c = 160 then 32 else c) s))
   = length (takeWhile (\<lambda>c. c = 32 \<or> c = 160) s)"
  by (induction s) auto

lemma length_minus_dropWhile:
  "length xs - length (dropWhile P xs) = length (takeWhile P xs)"
proof -
  have "length (takeWhile P xs) + length (dropWhile P xs) = length xs"
    by (metis length_append takeWhile_dropWhile_id)
  then show ?thesis by arith
qed

lemma indentation_leading: "get_indentation_level s = spec_leading_spaces s div 4"
proof -
  have c: "replace_char 160 (py '' '') s = map (\<lambda>c::nat. if c = 160 then 32 else c) s"
    using replace_char_single [of 160 32 s] by simp
  show ?thesis
    by (simp only: get_indentation_level_def Let_def lstrip_space_def INDENT_SPACES_def c
          length_minus_dropWhile takeWhile_nbsp spec_leading_spaces_def)
qed

lemma leading_rstrip:
  assumes "\<not> is_blank s"
  shows "spec_leading_spaces (rstrip s) = spec_leading_spaces s"
proof -
  obtain ws where s: "s = rstrip s @ ws" using rstrip_decomp by blast
  from assms obtain c where c: "c \<in> set (rstrip s)" "\<not> isspace c"
    using strip_nonempty_char [of s] by (auto simp: is_blank_def)
  from c(2) have n: "\<not> (c = 32 \<or> c = 160)" by (auto simp: isspace_def)
  have "takeWhile (\<lambda>c. c = 32 \<or> c = 160) (rstrip s @ ws) = takeWhile (\<lambda>c. c = 32 \<or> c = 160) (rstrip s)"
    using c(1) n by (intro takeWhile_append1 [of c]) auto
  with s show ?thesis by (simp add: spec_leading_spaces_def)
qed

text \<open>The loop body in closed form.\<close>

lemma process_line_blank: "is_blank line \<Longrightarrow> process_line st line = st"
  by (simp add: process_line_def is_blank_def strip_rstrip)

lemma process_line_nonblank:
  assumes "\<not> is_blank line"
  shows "process_line st line =
    \<lparr>tikz_nodes = tikz_nodes st @
        (if spec_depth (current_depth st) line \<le> current_depth st
         then [Closing (spec_depth (current_depth st) line)
                 ((current_depth st - spec_depth (current_depth st) line) + 1)] else []) @
        (if spec_depth (current_depth st) line = 1
         then [ChildAngle 1 (LEVEL_1_ANGLES ! (angle_index st mod 6))]
         else [Child (spec_depth (current_depth st) line)]) @
        [Concept (spec_depth (current_depth st) line)
           (replace_char 95 (bs @ py ''_'') (replace_char 37 (bs @ py ''%'')
              (replace_char 38 (bs @ py ''&'') (fst (parse_line line)))))],
      table_data = table_data st @ [parse_line line],
      current_depth = spec_depth (current_depth st) line,
      angle_index = (if spec_depth (current_depth st) line = 1 then angle_index st + 1
                     else angle_index st)\<rparr>"
proof -
  have d: "(if max 1 (get_indentation_level (rstrip line)) > current_depth st + 1
            then current_depth st + 1 else max 1 (get_indentation_level (rstrip line)))
           = spec_depth (current_depth st) line"
    using assms by (simp add: indentation_leading leading_rstrip spec_depth_def min_def max_def)
  have len: "length LEVEL_1_ANGLES = 6" by (simp add: LEVEL_1_ANGLES_def)
  from assms have nb: "strip (rstrip line) \<noteq> []" by (simp add: is_blank_def strip_rstrip)
  show ?thesis
    unfolding process_line_def Let_def parse_line_rstrip d len
    using nb by (simp add: case_prod_beta)
qed

text \<open>The loop keeps what every pass of its body keeps.\<close>

lemma foldl_process_line_invariant:
  assumes "I st" and "\<And>s l. I s \<Longrightarrow> I (process_line s l)"
  shows "I (foldl process_line st ls)"
  using assms(1) by (induction ls arbitrary: st) (simp_all add: assms(2))

lemma root_state_eq:
  "root_state l =
     \<lparr>tikz_nodes = [], table_data = [parse_line l], current_depth = 0, angle_index = 0\<rparr>"
  by (simp add: root_state_def Let_def case_prod_beta parse_line_rstrip)

lemma root_state_fields:
  "tikz_nodes (root_state l) = []" "current_depth (root_state l) = 0"
  "angle_index (root_state l) = 0" "table_data (root_state l) = [parse_line l]"
  by (simp_all add: root_state_eq)

text \<open>Facts that evaluate a run on given lines.\<close>

lemmas line_simps = is_blank_def rstrip_def strip_def lstrip_def isspace_def
  spec_depth_def spec_leading_spaces_def parse_line_def split1_def replace_char_def bs_def
  LEVEL_1_ANGLES_def

lemmas run_simps = emitted_def emit_def close_remaining_def root_state_eq
  process_line_nonblank process_line_blank

section \<open>Depth of a node\<close>

lemma spec_depth_bounds: "1 \<le> spec_depth d line \<and> spec_depth d line \<le> d + 1"
  by (simp add: spec_depth_def)

lemma spec_leading_spaces_indented: "spec_leading_spaces (replicate n 32 @ [120]) = n"
  by (induction n) (simp_all add: spec_leading_spaces_def)

lemma indented_not_blank: "\<not> is_blank (replicate n 32 @ [120])"
proof -
  have "\<not> isspace 120" by (simp add: isspace_def)
  then have "\<exists>c \<in> set (replicate n 32 @ [120]). \<not> isspace c" by simp
  then show ?thesis
    unfolding is_blank_def strip_def lstrip_def rstrip_def
    by (simp add: dropWhile_eq_Nil_conv)
qed

lemma process_line_depth:
  "\<not> is_blank line \<Longrightarrow> current_depth (process_line st line) = spec_depth (current_depth st) line"
  by (simp add: process_line_nonblank)

text \<open>
  Claim C1. A line that is not blank gets the depth
  \<open>min (max 1 (leading_spaces div 4)) (previous_depth + 1)\<close>, where the leading spaces
  and no-break spaces of the line are counted and \<open>previous_depth\<close> is the depth of the
  node processed before it (0 after the root); this is the depth of the content node
  the line appends and the new \<open>current_depth\<close>. So the depth is at least 1 and at most
  one more than the previous depth. A step down of any size is possible: from any
  depth, a line indented by \<open>4 * t\<close> spaces reaches any depth \<open>t\<close> between 1 and the
  previous depth plus one.
\<close>

theorem depth_clamping:
  assumes "\<not> is_blank line"
  shows "current_depth (process_line st line) = spec_depth (current_depth st) line
     \<and> concat (map concept_depth (appended st (process_line st line)))
         = [min (max 1 (spec_leading_spaces line div 4)) (current_depth st + 1)]
     \<and> 1 \<le> current_depth (process_line st line)
     \<and> current_depth (process_line st line) \<le> current_depth st + 1
     \<and> (1 \<le> t \<and> t \<le> current_depth st + 1 \<longrightarrow>
          current_depth (process_line st (replicate (4 * t) 32 @ py ''x'')) = t)"
proof -
  have a: "current_depth (process_line st line) = spec_depth (current_depth st) line"
    using assms by (rule process_line_depth)
  have b: "concat (map concept_depth (appended st (process_line st line)))
         = [min (max 1 (spec_leading_spaces line div 4)) (current_depth st + 1)]"
    using assms by (simp add: process_line_nonblank appended_def spec_depth_def)
  have c: "1 \<le> spec_depth (current_depth st) line"
      "spec_depth (current_depth st) line \<le> current_depth st + 1"
    using spec_depth_bounds [of "current_depth st" line] by simp_all
  have d: "current_depth (process_line st (replicate (4 * t) 32 @ py ''x'')) = t"
    if "1 \<le> t" "t \<le> current_depth st + 1"
  proof -
    have "current_depth (process_line st (replicate (4 * t) 32 @ [120]))
          = spec_depth (current_depth st) (replicate (4 * t) 32 @ [120])"
      by (rule process_line_depth) (rule indented_not_blank)
    also have "\<dots> = t"
      using that unfolding spec_depth_def spec_leading_spaces_indented by simp
    finally show ?thesis by simp
  qed
  from a b c d show ?thesis by simp
qed

theorem depth_clamping_witness:
  "\<not> is_blank (py ''        Deep'')
   \<and> current_depth (process_line
        \<lparr>tikz_nodes = [], table_data = [], current_depth = 0, angle_index = 0\<rparr>
        (py ''        Deep'')) = 1
   \<and> current_depth (process_line
        \<lparr>tikz_nodes = [], table_data = [], current_depth = 5, angle_index = 0\<rparr>
        (replicate (4 * 2) 32 @ py ''x'')) = 2"
proof -
  have h: "\<not> is_blank (py ''        Deep'')"
    by (simp add: is_blank_def strip_def lstrip_def rstrip_def isspace_def)
  have s: "spec_depth 0 (py ''        Deep'') = 1"
    by (simp add: spec_depth_def spec_leading_spaces_def)
  from depth_clamping [OF h,
      of "\<lparr>tikz_nodes = [], table_data = [], current_depth = 0, angle_index = 0\<rparr>" 1]
    depth_clamping [OF h,
      of "\<lparr>tikz_nodes = [], table_data = [], current_depth = 5, angle_index = 0\<rparr>" 2]
    h s
  show ?thesis by simp
qed

text \<open>
  Over a run: the depths of the nodes are 0 for the root and, for the later lines that
  are not blank, the depths the rule above gives one after the other.
\<close>

lemma loop_depths:
  "concat (map concept_depth (tikz_nodes (foldl process_line st ls)))
   = concat (map concept_depth (tikz_nodes st))
     @ spec_depths (current_depth st) (filter (\<lambda>l. \<not> is_blank l) ls)"
proof (induction ls arbitrary: st)
  case Nil
  then show ?case by simp
next
  case (Cons l ls)
  show ?case
  proof (cases "is_blank l")
    case True
    then show ?thesis by (simp add: Cons.IH process_line_blank)
  next
    case False
    then show ?thesis by (simp add: Cons.IH process_line_nonblank)
  qed
qed

lemma node_depths_run:
  "node_depths lines = 0 # spec_depths 0 (filter (\<lambda>l. \<not> is_blank l) (tl lines))"
proof -
  have "concept_depth (FinalClosing n) = []" for n by simp
  then show ?thesis
    by (simp add: node_depths_def emit_def close_remaining_def loop_depths root_state_fields)
qed

section \<open>The text of the pieces\<close>

text \<open>
  What \<open>opened\<close> and \<open>closed\<close> count is in the text: but for the content nodes, whose
  label is between brackets of its own, a piece is written with as many opening
  brackets as branches it opens and as many closing brackets as branches it closes.
\<close>

lemma decimal_digits: "set (decimal n) \<subseteq> {48..57}"
proof (induction n rule: decimal.induct)
  case (1 n)
  show ?case
  proof (cases "n < 10")
    case True
    then show ?thesis by (subst decimal.simps) simp
  next
    case False
    have "n mod 10 < 10" by simp
    then have "48 + n mod 10 \<in> {48..57}" by auto
    with False 1 show ?thesis by (subst decimal.simps) auto
  qed
qed

lemma count_list_append: "count_list (xs @ ys) c = count_list xs c + count_list ys c"
  by (induction xs) simp_all

lemma count_closings: "count_list (concat (replicate n [125, 32::nat])) 125 = n"
  by (induction n) simp_all

lemma count_closings_open: "count_list (concat (replicate n [125, 32::nat])) 123 = 0"
  by (induction n) simp_all

lemma count_indent: "count_list (indent n) 125 = 0" "count_list (indent n) 123 = 0"
  by (induction n) (simp_all add: indent_def)

lemma count_decimal: "count_list (decimal n) 125 = 0" "count_list (decimal n) 123 = 0"
  using decimal_digits [of n] by (auto simp: count_list_0_iff)

lemma render_brackets:
  assumes "concept_depth p = []"
  shows "count_list (render p) 123 = opened p \<and> count_list (render p) 125 = closed p"
  using assms
  by (cases p)
     (simp_all add: count_list_append count_closings count_closings_open count_indent count_decimal)

lemma decimal_angles:
  "map decimal LEVEL_1_ANGLES = [py ''150'', py ''30'', py ''270'', py ''210'', py ''90'', py ''330'']"
  by (simp add: LEVEL_1_ANGLES_def decimal.simps)

lemma indent_Suc: "indent (Suc n) = py ''    '' @ indent n"
  by (simp add: indent_def)

lemma length_indent: "length (indent n) = 4 * n"
  by (induction n) (simp_all add: indent_def)

lemma render_opening_no_closing:
  "count_list (indent d @ py ''child[grow='' @ decimal a @ py ''] {\<newline>'') 125 = 0"
  "count_list (indent d @ py ''child {\<newline>'') 125 = 0"
  by (simp_all add: count_list_append count_indent count_decimal)

lemma count_closing_text:
  "count_list (indent d @ concat (replicate n (py ''} '')) @ py ''\<newline>'') 125 = n"
  by (simp add: count_list_append count_indent count_closings)

section \<open>Closing and opening of branches\<close>

text \<open>
  Claim C6. A line that is not blank and whose depth \<open>d\<close> is at most \<open>current_depth\<close>
  appends three strings: the closing, which holds \<open>(current_depth - d) + 1\<close> closing
  brackets, then the opening of its own branch, then its content node. A line whose
  depth is \<open>current_depth + 1\<close> appends the opening and the content node only. The
  opening holds no closing bracket, so such a line closes nothing.
\<close>

theorem closing_count:
  assumes "\<not> is_blank line" and "d = current_depth (process_line st line)"
  shows "tikz_nodes (process_line st line) = tikz_nodes st @ appended st (process_line st line)
     \<and> (d \<le> current_depth st \<longrightarrow>
          map render (appended st (process_line st line)) =
            [indent d @ concat (replicate ((current_depth st - d) + 1) (py ''} '')) @ py ''\<newline>'',
             (if d = 1
              then indent d @ py ''child[grow='' @
                   decimal (LEVEL_1_ANGLES ! (angle_index st mod 6)) @ py ''] {\<newline>''
              else indent d @ py ''child {\<newline>''),
             indent (d + 1) @ py ''node[concept] {'' @
               replace_char 95 (bs @ py ''_'') (replace_char 37 (bs @ py ''%'')
                 (replace_char 38 (bs @ py ''&'') (fst (parse_line line)))) @ py ''}'']
          \<and> count_list (indent d @ concat (replicate ((current_depth st - d) + 1) (py ''} ''))
                 @ py ''\<newline>'') 125 = (current_depth st - d) + 1
          \<and> (\<exists>p c. appended st (process_line st line) =
                   [Closing d ((current_depth st - d) + 1), p, Concept d c] \<and> opened p = 1)
          \<and> sum_list (map closed (appended st (process_line st line)))
              = (current_depth st - d) + 1)
     \<and> (d = current_depth st + 1 \<longrightarrow>
          map render (appended st (process_line st line)) =
            [(if d = 1
              then indent d @ py ''child[grow='' @
                   decimal (LEVEL_1_ANGLES ! (angle_index st mod 6)) @ py ''] {\<newline>''
              else indent d @ py ''child {\<newline>''),
             indent (d + 1) @ py ''node[concept] {'' @
               replace_char 95 (bs @ py ''_'') (replace_char 37 (bs @ py ''%'')
                 (replace_char 38 (bs @ py ''&'') (fst (parse_line line)))) @ py ''}'']
          \<and> (\<exists>p c. appended st (process_line st line) = [p, Concept d c] \<and> opened p = 1)
          \<and> sum_list (map closed (appended st (process_line st line))) = 0)
     \<and> count_list (if d = 1
              then indent d @ py ''child[grow='' @
                   decimal (LEVEL_1_ANGLES ! (angle_index st mod 6)) @ py ''] {\<newline>''
              else indent d @ py ''child {\<newline>'') 125 = 0"
proof -
  from assms have d: "d = spec_depth (current_depth st) line"
    by (simp add: process_line_depth)
  have a: "tikz_nodes (process_line st line) = tikz_nodes st @ appended st (process_line st line)"
    using assms(1) by (simp add: process_line_nonblank appended_def)
  have c: "count_list (indent d @ concat (replicate ((current_depth st - d) + 1) (py ''} ''))
                 @ py ''\<newline>'') 125 = (current_depth st - d) + 1"
    by (rule count_closing_text)
  have o: "count_list (if d = 1
              then indent d @ py ''child[grow='' @
                   decimal (LEVEL_1_ANGLES ! (angle_index st mod 6)) @ py ''] {\<newline>''
              else indent d @ py ''child {\<newline>'') 125 = 0"
  proof (cases "d = 1")
    case True
    then show ?thesis by (simp add: count_list_append count_indent count_decimal)
  next
    case False
    then show ?thesis by (simp add: count_list_append count_indent count_decimal)
  qed
  have r: "appended st (process_line st line) =
      (if d \<le> current_depth st then [Closing d ((current_depth st - d) + 1)] else []) @
      [if d = 1 then ChildAngle 1 (LEVEL_1_ANGLES ! (angle_index st mod 6)) else Child d,
       Concept d (replace_char 95 (bs @ py ''_'') (replace_char 37 (bs @ py ''%'')
                 (replace_char 38 (bs @ py ''&'') (fst (parse_line line)))))]"
    using assms(1) unfolding d by (simp add: process_line_nonblank appended_def)
  show ?thesis
    unfolding r using a c o by (auto simp: r)
qed


theorem closing_count_witness:
  "\<not> is_blank (py ''    ChildB'')
   \<and> current_depth (process_line
        \<lparr>tikz_nodes = [], table_data = [], current_depth = 3, angle_index = 1\<rparr>
        (py ''    ChildB'')) = 1
   \<and> map render (appended
        \<lparr>tikz_nodes = [], table_data = [], current_depth = 3, angle_index = 1\<rparr>
        (process_line
          \<lparr>tikz_nodes = [], table_data = [], current_depth = 3, angle_index = 1\<rparr>
          (py ''    ChildB'')))
     = [py ''    } } } \<newline>'', py ''    child[grow=30] {\<newline>'',
        py ''        node[concept] {ChildB}'']
   \<and> sum_list (map closed (appended
        \<lparr>tikz_nodes = [], table_data = [], current_depth = 3, angle_index = 1\<rparr>
        (process_line
          \<lparr>tikz_nodes = [], table_data = [], current_depth = 3, angle_index = 1\<rparr>
          (py ''    ChildB'')))) = 3"
proof -
  have h: "\<not> is_blank (py ''    ChildB'')"
    by (simp add: line_simps)
  have d: "1 = current_depth (process_line
        \<lparr>tikz_nodes = [], table_data = [], current_depth = 3, angle_index = 1\<rparr>
        (py ''    ChildB''))"
    using process_line_depth [OF h,
      of "\<lparr>tikz_nodes = [], table_data = [], current_depth = 3, angle_index = 1\<rparr>"]
    by (simp add: spec_depth_def spec_leading_spaces_def)
  have p: "fst (parse_line (py ''    ChildB'')) = py ''ChildB''"
    by (simp add: line_simps)
  have t: "indent (Suc 0) = [32, 32, 32, 32]"
    "indent (Suc (Suc 0)) = [32, 32, 32, 32, 32, 32, 32, 32]"
    "decimal 30 = [51, 48]" "replicate 3 [125, 32::nat] = [[125, 32], [125, 32], [125, 32]]"
    by (simp_all add: indent_def decimal.simps numeral_3_eq_3)
  from closing_count [OF h d]
  have "map render (appended
        \<lparr>tikz_nodes = [], table_data = [], current_depth = 3, angle_index = 1\<rparr>
        (process_line
          \<lparr>tikz_nodes = [], table_data = [], current_depth = 3, angle_index = 1\<rparr>
          (py ''    ChildB'')))
     = [py ''    } } } \<newline>'', py ''    child[grow=30] {\<newline>'',
        py ''        node[concept] {ChildB}'']
   \<and> sum_list (map closed (appended
        \<lparr>tikz_nodes = [], table_data = [], current_depth = 3, angle_index = 1\<rparr>
        (process_line
          \<lparr>tikz_nodes = [], table_data = [], current_depth = 3, angle_index = 1\<rparr>
          (py ''    ChildB'')))) = 3"
    unfolding p by (simp add: t LEVEL_1_ANGLES_def replace_char_def bs_def)
  with h d show ?thesis by simp
qed





section \<open>Angles of the top-level branches\<close>

lemma angle_invariant_step: "angle_invariant st \<Longrightarrow> angle_invariant (process_line st line)"
proof (cases "is_blank line")
  case True
  then show "angle_invariant st \<Longrightarrow> ?thesis" by (simp add: process_line_blank)
next
  case False
  assume "angle_invariant st"
  with False spec_depth_bounds [of "current_depth st" line] show ?thesis
    by (auto simp: process_line_nonblank angle_invariant_def branches_def)
qed

lemma angle_invariant_root: "angle_invariant (root_state l)"
  by (simp add: angle_invariant_def root_state_fields branches_def)

lemma angle_invariant_loop: "angle_invariant (foldl process_line (root_state l) ls)"
  using angle_invariant_root angle_invariant_step by (rule foldl_process_line_invariant)

lemma angle_invariant_emit: "angle_invariant (emit lines)"
  using angle_invariant_loop [of "hd lines" "tl lines"]
  by (simp add: emit_def close_remaining_def angle_invariant_def branches_def)


lemma angles_branches:
  "LEVEL_1_ANGLES = [150, 30, 270, 210, 90, 330]
   \<and> length (filter (\<lambda>b. fst b = 1) (branches (emitted lines))) = angle_index (emit lines)
   \<and> (\<forall>k < length (filter (\<lambda>b. fst b = 1) (branches (emitted lines))).
        filter (\<lambda>b. fst b = 1) (branches (emitted lines)) ! k
          = (1, Some (LEVEL_1_ANGLES ! (k mod 6))))
   \<and> (\<forall>b \<in> set (branches (emitted lines)). fst b \<noteq> 1 \<longrightarrow> 1 < fst b \<and> snd b = None)"
proof (cases "lines = []")
  case True
  then have "angle_index (emit lines) = 0"
    by (simp add: emit_def close_remaining_def root_state_fields)
  with True show ?thesis
    by (simp add: emitted_def branches_def LEVEL_1_ANGLES_def)
next
  case False
  have inv: "angle_invariant (emit lines)" by (rule angle_invariant_emit)
  from False have e: "emitted lines = tikz_nodes (emit lines)" by (simp add: emitted_def)
  from inv have f: "filter (\<lambda>b. fst b = 1) (branches (emitted lines))
       = map (\<lambda>k. (1, Some (LEVEL_1_ANGLES ! (k mod 6)))) [0..<angle_index (emit lines)]"
    unfolding e angle_invariant_def by (rule conjunct1)
  from inv have g: "\<forall>b \<in> set (branches (emitted lines)). fst b \<noteq> 1 \<longrightarrow> 1 < fst b \<and> snd b = None"
    unfolding e angle_invariant_def by (rule conjunct2)
  have a: "LEVEL_1_ANGLES = [150, 30, 270, 210, 90, 330]" by (rule LEVEL_1_ANGLES_def)
  have l: "length (filter (\<lambda>b. fst b = 1) (branches (emitted lines))) = angle_index (emit lines)"
    unfolding f by simp
  have n: "\<forall>k < length (filter (\<lambda>b. fst b = 1) (branches (emitted lines))).
        filter (\<lambda>b. fst b = 1) (branches (emitted lines)) ! k
          = (1, Some (LEVEL_1_ANGLES ! (k mod 6)))"
    unfolding l unfolding f by simp
  from a l n g show ?thesis by blast
qed

lemma angle_text_step:
  assumes "map render (top_level (tikz_nodes st))
           = map (\<lambda>k. py ''    child[grow='' @ decimal (LEVEL_1_ANGLES ! (k mod 6)) @ py ''] {\<newline>'')
               [0..<angle_index st]
     \<and> (\<forall>p \<in> set (tikz_nodes st). \<forall>d. opening_depth p = Some d \<longrightarrow> d \<noteq> 1 \<longrightarrow>
           1 < d \<and> render p = indent d @ py ''child {\<newline>'')"
  shows "map render (top_level (tikz_nodes (process_line st line)))
           = map (\<lambda>k. py ''    child[grow='' @ decimal (LEVEL_1_ANGLES ! (k mod 6)) @ py ''] {\<newline>'')
               [0..<angle_index (process_line st line)]
     \<and> (\<forall>p \<in> set (tikz_nodes (process_line st line)). \<forall>d. opening_depth p = Some d \<longrightarrow> d \<noteq> 1 \<longrightarrow>
           1 < d \<and> render p = indent d @ py ''child {\<newline>'')"
proof (cases "is_blank line")
  case True
  with assms show ?thesis by (simp add: process_line_blank)
next
  case False
  have i: "indent (Suc 0) = [32, 32, 32, 32]" by (simp add: indent_def)
  from False assms spec_depth_bounds [of "current_depth st" line] show ?thesis
    by (auto simp: process_line_nonblank top_level_def i)
qed

lemma angle_text_loop:
  "map render (top_level (tikz_nodes (foldl process_line (root_state l) ls)))
           = map (\<lambda>k. py ''    child[grow='' @ decimal (LEVEL_1_ANGLES ! (k mod 6)) @ py ''] {\<newline>'')
               [0..<angle_index (foldl process_line (root_state l) ls)]
     \<and> (\<forall>p \<in> set (tikz_nodes (foldl process_line (root_state l) ls)).
           \<forall>d. opening_depth p = Some d \<longrightarrow> d \<noteq> 1 \<longrightarrow>
           1 < d \<and> render p = indent d @ py ''child {\<newline>'')"
  by (rule foldl_process_line_invariant)
     (simp add: root_state_fields top_level_def, rule angle_text_step)


lemma angle_text_emitted:
  "map render (top_level (emitted lines))
           = map (\<lambda>k. py ''    child[grow='' @ decimal (LEVEL_1_ANGLES ! (k mod 6)) @ py ''] {\<newline>'')
               [0..<angle_index (emit lines)]
     \<and> (\<forall>p \<in> set (emitted lines). \<forall>d. opening_depth p = Some d \<longrightarrow> d \<noteq> 1 \<longrightarrow>
           1 < d \<and> render p = indent d @ py ''child {\<newline>'')"
proof (cases "lines = []")
  case True
  then show ?thesis
    by (simp add: emitted_def top_level_def emit_def close_remaining_def root_state_fields)
next
  case False
  with angle_text_loop [of "hd lines" "tl lines"] show ?thesis
    by (simp add: emitted_def emit_def close_remaining_def top_level_def)
qed

text \<open>
  Claim C7. On any list of lines, the branches of depth 1, in the order they are
  opened, are written \<open>child[grow=N] {\<close> with \<open>N\<close> the decimal of
  \<open>LEVEL_1_ANGLES ! (k mod 6)\<close> for \<open>k = 0, 1, 2, ...\<close>, of the sequence 150, 30, 270,
  210, 90, 330; \<open>angle_index\<close> ends as their number, having grown by one with each;
  and a branch of another depth is deeper than 1 and is written \<open>child {\<close>, with no
  angle.
\<close>

theorem angles_cycle:
  "LEVEL_1_ANGLES = [150, 30, 270, 210, 90, 330]
   \<and> map decimal LEVEL_1_ANGLES
       = [py ''150'', py ''30'', py ''270'', py ''210'', py ''90'', py ''330'']
   \<and> length (top_level (emitted lines)) = angle_index (emit lines)
   \<and> (\<forall>k < length (top_level (emitted lines)).
        render (top_level (emitted lines) ! k)
          = py ''    child[grow='' @ decimal (LEVEL_1_ANGLES ! (k mod 6)) @ py ''] {\<newline>'')
   \<and> (\<forall>p \<in> set (emitted lines). \<forall>d. opening_depth p = Some d \<longrightarrow> d \<noteq> 1 \<longrightarrow>
         1 < d \<and> render p = indent d @ py ''child {\<newline>'')
   \<and> length (filter (\<lambda>b. fst b = 1) (branches (emitted lines))) = angle_index (emit lines)
   \<and> (\<forall>k < length (filter (\<lambda>b. fst b = 1) (branches (emitted lines))).
        filter (\<lambda>b. fst b = 1) (branches (emitted lines)) ! k
          = (1, Some (LEVEL_1_ANGLES ! (k mod 6))))
   \<and> (\<forall>b \<in> set (branches (emitted lines)). fst b \<noteq> 1 \<longrightarrow> 1 < fst b \<and> snd b = None)"
proof -
  have t: "map render (top_level (emitted lines))
           = map (\<lambda>k. py ''    child[grow='' @ decimal (LEVEL_1_ANGLES ! (k mod 6)) @ py ''] {\<newline>'')
               [0..<angle_index (emit lines)]"
    using angle_text_emitted [of lines] by (rule conjunct1)
  have l: "length (top_level (emitted lines)) = angle_index (emit lines)"
    using arg_cong [OF t, of length] by simp
  have n: "\<forall>k < length (top_level (emitted lines)).
        render (top_level (emitted lines) ! k)
          = py ''    child[grow='' @ decimal (LEVEL_1_ANGLES ! (k mod 6)) @ py ''] {\<newline>''"
  proof (intro allI impI)
    fix k assume k: "k < length (top_level (emitted lines))"
    then have "render (top_level (emitted lines) ! k) = map render (top_level (emitted lines)) ! k"
      by simp
    also have "\<dots> = py ''    child[grow='' @ decimal (LEVEL_1_ANGLES ! (k mod 6)) @ py ''] {\<newline>''"
      unfolding t using k l by simp
    finally show "render (top_level (emitted lines) ! k)
          = py ''    child[grow='' @ decimal (LEVEL_1_ANGLES ! (k mod 6)) @ py ''] {\<newline>''" .
  qed
  have d: "\<forall>p \<in> set (emitted lines). \<forall>d. opening_depth p = Some d \<longrightarrow> d \<noteq> 1 \<longrightarrow>
         1 < d \<and> render p = indent d @ py ''child {\<newline>''"
    using angle_text_emitted [of lines] by (rule conjunct2)
  have old: "LEVEL_1_ANGLES = [150, 30, 270, 210, 90, 330]
   \<and> length (filter (\<lambda>b. fst b = 1) (branches (emitted lines))) = angle_index (emit lines)
   \<and> (\<forall>k < length (filter (\<lambda>b. fst b = 1) (branches (emitted lines))).
        filter (\<lambda>b. fst b = 1) (branches (emitted lines)) ! k
          = (1, Some (LEVEL_1_ANGLES ! (k mod 6))))
   \<and> (\<forall>b \<in> set (branches (emitted lines)). fst b \<noteq> 1 \<longrightarrow> 1 < fst b \<and> snd b = None)"
    by (rule angles_branches)
  from old decimal_angles l n d show ?thesis by blast
qed


theorem angles_cycle_witness:
  "render (top_level (emitted
      [py ''Root'', py ''    A'', py ''        A1'', py ''    B'', py ''    C'', py ''    D'',
       py ''    E'', py ''    F'', py ''    G'']) ! 6) = py ''    child[grow=150] {\<newline>''
   \<and> Child 2 \<in> set (emitted
      [py ''Root'', py ''    A'', py ''        A1'', py ''    B'', py ''    C'', py ''    D'',
       py ''    E'', py ''    F'', py ''    G''])
   \<and> render (Child 2) = py ''        child {\<newline>''"
proof -
  have e: "emitted
      [py ''Root'', py ''    A'', py ''        A1'', py ''    B'', py ''    C'', py ''    D'',
       py ''    E'', py ''    F'', py ''    G'']
    = [ChildAngle 1 150, Concept 1 (py ''A''), Child 2, Concept 2 (py ''A1''),
       Closing 1 2, ChildAngle 1 30, Concept 1 (py ''B''),
       Closing 1 1, ChildAngle 1 270, Concept 1 (py ''C''),
       Closing 1 1, ChildAngle 1 210, Concept 1 (py ''D''),
       Closing 1 1, ChildAngle 1 90, Concept 1 (py ''E''),
       Closing 1 1, ChildAngle 1 330, Concept 1 (py ''F''),
       Closing 1 1, ChildAngle 1 150, Concept 1 (py ''G''), FinalClosing 1]"
    by (simp add: run_simps line_simps)
  have l: "6 < length (top_level (emitted
      [py ''Root'', py ''    A'', py ''        A1'', py ''    B'', py ''    C'', py ''    D'',
       py ''    E'', py ''    F'', py ''    G'']))"
    unfolding e by (simp add: top_level_def)
  have m: "Child 2 \<in> set (emitted
      [py ''Root'', py ''    A'', py ''        A1'', py ''    B'', py ''    C'', py ''    D'',
       py ''    E'', py ''    F'', py ''    G''])"
    unfolding e by simp
  from angles_cycle [of "[py ''Root'', py ''    A'', py ''        A1'', py ''    B'',
       py ''    C'', py ''    D'', py ''    E'', py ''    F'', py ''    G'']"] l
  have a: "render (top_level (emitted
      [py ''Root'', py ''    A'', py ''        A1'', py ''    B'', py ''    C'', py ''    D'',
       py ''    E'', py ''    F'', py ''    G'']) ! 6)
      = py ''    child[grow='' @ decimal (LEVEL_1_ANGLES ! (6 mod 6)) @ py ''] {\<newline>''"
    by blast
  have b: "render (Child 2) = py ''        child {\<newline>''"
    by (simp add: indent_def numeral_2_eq_2)
  have "decimal (LEVEL_1_ANGLES ! (6 mod 6)) = py ''150''"
    by (simp add: LEVEL_1_ANGLES_def decimal.simps)
  with a have "render (top_level (emitted
      [py ''Root'', py ''    A'', py ''        A1'', py ''    B'', py ''    C'', py ''    D'',
       py ''    E'', py ''    F'', py ''    G'']) ! 6) = py ''    child[grow=150] {\<newline>''"
    by simp
  with m b show ?thesis by blast
qed

section \<open>Escaping in the table\<close>

lemma escape_cell_Nil: "escape_cell [] = []"
  by (simp add: escape_cell_def replace_char_def)

lemma escape_cell_Cons: "escape_cell (c # cs) = spec_escape c @ escape_cell cs"
  by (simp add: escape_cell_def replace_char_def spec_escape_def bs_def)

lemma escape_cell_chars: "escape_cell s = concat (map spec_escape s)"
  by (induction s) (simp_all add: escape_cell_Nil escape_cell_Cons)

text \<open>
  Claim C8. In a table row the label and the description are escaped each on its own,
  character by character: a backslash becomes the command \<open>textbackslash\<close> and a
  space, and \<open>&\<close>, \<open>%\<close>, \<open>_\<close> get a backslash before them; every other character is
  kept. Since the backslash is replaced first, no backslash that an escape has put in
  is escaped again. The label \<open>A & B_C\<close> gives the cell text
  \<^verbatim>\<open>A \& B\_C\<close>.
\<close>

theorem table_cells_escaped:
  "table_row (label, description) =
     [py ''    '' @ concat (map spec_escape label) @ py '' & '' @
        concat (map spec_escape description) @ py '' '' @ bs @ bs,
      py ''    '' @ bs @ py ''midrule'']
   \<and> escape_cell label = concat (map spec_escape label)
   \<and> escape_cell description = concat (map spec_escape description)
   \<and> spec_escape 92 = bs @ py ''textbackslash '' \<and> spec_escape 38 = bs @ py ''&''
   \<and> spec_escape 37 = bs @ py ''%'' \<and> spec_escape 95 = bs @ py ''_''
   \<and> (c \<notin> {92, 38, 37, 95} \<longrightarrow> spec_escape c = [c])
   \<and> escape_cell (py ''A & B_C'') = py ''A '' @ bs @ py ''& B'' @ bs @ py ''_C''
   \<and> fst (parse_line (py ''A & B_C'')) = py ''A & B_C''"
  by (simp add: table_row_def escape_cell_chars spec_escape_def bs_def line_simps)


theorem table_cells_escaped_witness:
  "table_row (bs @ py ''&%_x'', py ''a_b'') =
     [py ''    '' @ bs @ py ''textbackslash '' @ bs @ py ''&'' @ bs @ py ''%'' @ bs @ py ''_x & a'' @
        bs @ py ''_b '' @ bs @ bs,
      py ''    '' @ bs @ py ''midrule'']
   \<and> (120::nat) \<notin> {92, 38, 37, 95} \<and> spec_escape 120 = [120]"
  using table_cells_escaped [of "bs @ py ''&%_x''" "py ''a_b''" 120]
  by (simp add: spec_escape_def bs_def)

section \<open>The scenario of four lines\<close>

lemma scenario_run:
  "emit [py ''Root'', py ''  ChildA - descA'', py ''    GrandchildA'', py ''  ChildB'']
   = \<lparr>tikz_nodes =
        [ChildAngle 1 150, Concept 1 (py ''ChildA''),
         Closing 1 1, ChildAngle 1 30, Concept 1 (py ''GrandchildA''),
         Closing 1 1, ChildAngle 1 270, Concept 1 (py ''ChildB''),
         FinalClosing 1],
      table_data =
        [(py ''Root'', []), (py ''ChildA'', py ''descA''), (py ''GrandchildA'', []),
         (py ''ChildB'', [])],
      current_depth = 1, angle_index = 3\<rparr>"
  by (simp add: run_simps line_simps)

lemma scenario_run_indented:
  "emit [py ''Root'', py ''    ChildA - descA'', py ''        GrandchildA'', py ''    ChildB'']
   = \<lparr>tikz_nodes =
        [ChildAngle 1 150, Concept 1 (py ''ChildA''),
         Child 2, Concept 2 (py ''GrandchildA''),
         Closing 1 2, ChildAngle 1 30, Concept 1 (py ''ChildB''),
         FinalClosing 1],
      table_data =
        [(py ''Root'', []), (py ''ChildA'', py ''descA''), (py ''GrandchildA'', []),
         (py ''ChildB'', [])],
      current_depth = 1, angle_index = 2\<rparr>"
  by (simp add: run_simps line_simps)

text \<open>
  Claim C3 as stated fails: the depths of the four lines with two, four and two
  leading spaces are not 0, 1, 2, 1.
\<close>

theorem scenario_depths_counterexample:
  "node_depths [py ''Root'', py ''  ChildA - descA'', py ''    GrandchildA'', py ''  ChildB'']
   \<noteq> [0, 1, 2, 1]"
  unfolding node_depths_def scenario_run by (simp add: root_state_fields)

text \<open>
  Claim C3, as amended. The lines \<open>Root\<close>, \<open>ChildA - descA\<close> after two spaces,
  \<open>GrandchildA\<close> after four and \<open>ChildB\<close> after two have the depths 0, 1, 1, 1, since
  a level is four spaces: ChildA opens a branch with the first angle, GrandchildA
  closes one branch and opens one with the second angle, ChildB closes one branch and
  opens one with the third angle, and one branch is closed at the end. The depths
  0, 1, 2, 1, with a nested branch without angle for GrandchildA, two branches closed
  before the branch of ChildB with the second angle, and one closed at the end, are
  those of the same lines indented by four, eight and four spaces.
\<close>

theorem scenario_amended:
  "node_depths [py ''Root'', py ''  ChildA - descA'', py ''    GrandchildA'', py ''  ChildB'']
     = [0, 1, 1, 1]
   \<and> emitted [py ''Root'', py ''  ChildA - descA'', py ''    GrandchildA'', py ''  ChildB'']
     = [ChildAngle 1 (LEVEL_1_ANGLES ! 0), Concept 1 (py ''ChildA''),
        Closing 1 1, ChildAngle 1 (LEVEL_1_ANGLES ! 1), Concept 1 (py ''GrandchildA''),
        Closing 1 1, ChildAngle 1 (LEVEL_1_ANGLES ! 2), Concept 1 (py ''ChildB''),
        FinalClosing 1]
   \<and> node_depths
       [py ''Root'', py ''    ChildA - descA'', py ''        GrandchildA'', py ''    ChildB'']
     = [0, 1, 2, 1]
   \<and> emitted
       [py ''Root'', py ''    ChildA - descA'', py ''        GrandchildA'', py ''    ChildB'']
     = [ChildAngle 1 (LEVEL_1_ANGLES ! 0), Concept 1 (py ''ChildA''),
        Child 2, Concept 2 (py ''GrandchildA''),
        Closing 1 2, ChildAngle 1 (LEVEL_1_ANGLES ! 1), Concept 1 (py ''ChildB''),
        FinalClosing 1]"
  unfolding node_depths_def emitted_def scenario_run scenario_run_indented
  by (simp add: root_state_fields LEVEL_1_ANGLES_def)

section \<open>Rows of the table and the root\<close>

text \<open>
  The rows of the table, in the order of the lines: one for the first line, blank or
  not, and one for every later line that is not blank; the renderer writes two lines
  for each.
\<close>

lemma table_lines_length: "length (table_lines data) = 2 * length data + 19"
proof -
  have "length (concat (map table_row data)) = 2 * length data"
    by (induction data) (simp_all add: table_row_def Let_def)
  then show ?thesis by (simp add: table_lines_def table_head_def)
qed

lemma process_line_table:
  "table_data (process_line st line)
   = table_data st @ (if is_blank line then [] else [parse_line line])"
  by (simp add: process_line_blank process_line_nonblank)

lemma loop_table:
  "table_data (foldl process_line st ls)
   = table_data st @ map parse_line (filter (\<lambda>l. \<not> is_blank l) ls)"
  by (induction ls arbitrary: st) (simp_all add: process_line_table)

lemma emit_table:
  "table_data (emit lines)
   = parse_line (hd lines) # map parse_line (filter (\<lambda>l. \<not> is_blank l) (tl lines))"
  by (simp add: emit_def close_remaining_def loop_table root_state_fields)

lemma emit_rows:
  "length (table_data (emit lines)) = 1 + length (filter (\<lambda>l. \<not> is_blank l) (tl lines))"
  by (simp add: emit_table)

lemma emit_table_first_not_blank:
  assumes "lines \<noteq> []" and "\<not> is_blank (hd lines)"
  shows "table_data (emit lines) = map parse_line (filter (\<lambda>l. \<not> is_blank l) lines)"
    and "length (table_data (emit lines)) = length (filter (\<lambda>l. \<not> is_blank l) lines)"
proof -
  from assms obtain l ls where "lines = l # ls" by (cases lines) auto
  with assms(2) show "table_data (emit lines) = map parse_line (filter (\<lambda>l. \<not> is_blank l) lines)"
    by (simp add: emit_table)
  then show "length (table_data (emit lines)) = length (filter (\<lambda>l. \<not> is_blank l) lines)"
    by simp
qed

lemma blank_first_run:
  "emit [py ''\<newline>'', py ''Root\<newline>'']
   = \<lparr>tikz_nodes = [ChildAngle 1 150, Concept 1 (py ''Root''), FinalClosing 1],
      table_data = [([], []), (py ''Root'', [])],
      current_depth = 1, angle_index = 1\<rparr>"
  by (simp add: run_simps line_simps)

text \<open>
  Claim C4 on two lines, a line break alone and then \<open>Root\<close> with its line break:
  the table gets two rows, one of them for the blank first line, while one line is
  not blank.
\<close>

theorem rows_blank_first_line:
  "length (table_data (emit [py ''\<newline>'', py ''Root\<newline>''])) = 2
   \<and> length (filter (\<lambda>l. \<not> is_blank l) [py ''\<newline>'', py ''Root\<newline>'']) = 1
   \<and> length (table_lines (table_data (emit [py ''\<newline>'', py ''Root\<newline>''])))
       = length (table_lines []) + 2 * 2"
  unfolding blank_first_run table_lines_length by (simp add: line_simps)

text \<open>
  Claim C5 on two lines, a line break alone and then \<open>Root\<close> with its line break:
  the root is made of the blank first line (an empty label between the brackets of
  \<open>textbf\<close>), and the first line that is not blank, \<open>Root\<close>, is emitted as a branch
  of depth 1 with the first angle.
\<close>

theorem root_blank_first_line:
  "is_blank (py ''\<newline>'') \<and> \<not> is_blank (py ''Root\<newline>'')
   \<and> table_data (root_state (py ''\<newline>'')) = [([], [])]
   \<and> root_node_definition (py ''\<newline>'')
       = py ''\<newline>  '' @ bs @ py ''node[concept] { '' @ bs @ py ''textbf{} }''
   \<and> emitted [py ''\<newline>'', py ''Root\<newline>'']
       = [ChildAngle 1 150, Concept 1 (py ''Root''), FinalClosing 1]"
  unfolding emitted_def blank_first_run
  by (simp add: root_state_eq root_node_definition_def line_simps)

section \<open>No input line\<close>

text \<open>
  Claim C9 as stated fails: the text written for no line is not the header with the
  footer right after it.
\<close>

theorem empty_input_counterexample:
  "full_latex [] \<noteq> LATEX_START_TEMPLATE @ LATEX_END"
  by (simp add: full_latex_def)

lemma empty_input_no_child:
  "\<not> contains (py ''child'') (LATEX_START_TEMPLATE @ py ''\<newline>'' @ LATEX_END)"
  by (simp add: LATEX_START_TEMPLATE_def LATEX_END_def text_lines_def bs_def)

lemma empty_input_no_node:
  "\<not> contains (py ''node[concept]'') (LATEX_START_TEMPLATE @ py ''\<newline>'' @ LATEX_END)"
  by (simp add: LATEX_START_TEMPLATE_def LATEX_END_def text_lines_def bs_def)

lemma empty_input_no_row:
  "\<not> contains (bs @ py ''midrule'') (LATEX_START_TEMPLATE @ py ''\<newline>'' @ LATEX_END)"
  by (simp add: LATEX_START_TEMPLATE_def LATEX_END_def text_lines_def bs_def)

text \<open>
  Claim C9, as amended. For no line, the text written is the header template, one line
  break and the closing template \<open>LATEX_END\<close>, and nothing else: it holds no branch
  (no \<open>child\<close>), no content node, and no table row or rule.
\<close>

theorem empty_input_text:
  "full_latex [] = LATEX_START_TEMPLATE @ py ''\<newline>'' @ LATEX_END
   \<and> \<not> contains (py ''child'') (full_latex [])
   \<and> \<not> contains (py ''node[concept]'') (full_latex [])
   \<and> \<not> contains (bs @ py ''midrule'') (full_latex [])"
proof -
  have e: "full_latex [] = LATEX_START_TEMPLATE @ py ''\<newline>'' @ LATEX_END"
    by (simp add: full_latex_def)
  show ?thesis
    unfolding e using empty_input_no_child empty_input_no_node empty_input_no_row by blast
qed

section \<open>Descriptions\<close>

lemma strip_Nil_iff: "strip s = [] \<longleftrightarrow> (\<forall>c \<in> set s. isspace c)"
proof
  assume "\<forall>c \<in> set s. isspace c"
  then have "rstrip s = []" by (simp add: rstrip_def)
  then show "strip s = []" by (simp add: strip_def lstrip_def)
next
  assume a: "strip s = []"
  have "dropWhile isspace (rev s) = []"
  proof (rule ccontr)
    assume n: "dropWhile isspace (rev s) \<noteq> []"
    then have "\<not> isspace (hd (dropWhile isspace (rev s)))" by (rule hd_dropWhile)
    moreover from n have "hd (dropWhile isspace (rev s)) \<in> set (dropWhile isspace (rev s))"
      by (rule hd_in_set)
    ultimately show False
      using a by (auto simp: strip_def lstrip_def rstrip_def)
  qed
  then show "\<forall>c \<in> set s. isspace c" by simp
qed

lemma strip_hd: "strip s \<noteq> [] \<Longrightarrow> \<not> isspace (hd (strip s))"
  unfolding strip_def lstrip_def by (rule hd_dropWhile)

lemma cut_first_Some: "cut_first sep s = Some (a, b) \<Longrightarrow> s = a @ sep @ b"
proof (induction s arbitrary: a)
  case Nil
  then show ?case by simp
next
  case (Cons c cs)
  show ?case
  proof (cases "take (length sep) (c # cs) = sep")
    case True
    with Cons.prems have "a = []" "b = drop (length sep) (c # cs)" by simp_all
    with True show ?thesis by (metis append_Nil append_take_drop_id)
  next
    case False
    with Cons.prems obtain a' where "cut_first sep cs = Some (a', b)" "a = c # a'"
      by (auto split: option.splits)
    with Cons.IH [of a'] show ?thesis by simp
  qed
qed

lemma strip_Nil: "strip [] = []"
  by (simp add: strip_def lstrip_def rstrip_def)

lemma label_of_blank: "is_blank l \<Longrightarrow> parse_line l = ([], [])"
  by (simp add: is_blank_def parse_line_def split1_def strip_Nil)

lemma label_not_blank:
  assumes "\<not> is_blank l"
  shows "fst (parse_line l) \<noteq> []"
proof -
  let ?t = "strip l"
  from assms have t: "?t \<noteq> []" by (simp add: is_blank_def)
  then have h: "\<not> isspace (hd ?t)" by (rule strip_hd)
  have "strip (hd (split1 (py '' - '') ?t)) \<noteq> []"
  proof (cases "cut_first (py '' - '') ?t")
    case None
    then have "hd (split1 (py '' - '') ?t) = ?t" by (simp add: split1_def)
    moreover from t h have "\<not> (\<forall>c \<in> set ?t. isspace c)" using hd_in_set by blast
    ultimately show ?thesis by (simp add: strip_Nil_iff)
  next
    case (Some ab)
    obtain a b where ab: "ab = (a, b)" by (cases ab)
    with Some have e: "?t = a @ py '' - '' @ b"
      using cut_first_Some [of "py '' - ''" ?t a b] by simp
    have "a \<noteq> []"
    proof
      assume "a = []"
      with e have "hd ?t = 32" by simp
      with h show False by (simp add: isspace_def)
    qed
    with e have "hd a = hd ?t" by simp
    with h \<open>a \<noteq> []\<close> have "\<not> (\<forall>c \<in> set a. isspace c)" using hd_in_set by metis
    moreover from Some ab have "hd (split1 (py '' - '') ?t) = a" by (simp add: split1_def)
    ultimately show ?thesis by (simp add: strip_Nil_iff)
  qed
  then show ?thesis by (simp add: parse_line_def Let_def)
qed

lemma blank_iff_label: "is_blank l \<longleftrightarrow> fst (parse_line l) = []"
  using label_of_blank [of l] label_not_blank [of l] by auto


lemma same_outline_step:
  assumes "same_outline l l'"
    and "tikz_nodes st = tikz_nodes st'" and "current_depth st = current_depth st'"
    and "angle_index st = angle_index st'"
  shows "tikz_nodes (process_line st l) = tikz_nodes (process_line st' l')
     \<and> current_depth (process_line st l) = current_depth (process_line st' l')
     \<and> angle_index (process_line st l) = angle_index (process_line st' l')"
proof (cases "is_blank l")
  case True
  with assms(1) have "is_blank l'" by (simp add: blank_iff_label same_outline_def)
  with True assms(2-4) show ?thesis by (simp add: process_line_blank)
next
  case False
  with assms(1) have n: "\<not> is_blank l'" by (simp add: blank_iff_label same_outline_def)
  from assms(1) have "spec_depth (current_depth st') l = spec_depth (current_depth st') l'"
    by (simp add: same_outline_def indentation_leading spec_depth_def)
  moreover from assms(1) have "fst (parse_line l) = fst (parse_line l')"
    by (simp add: same_outline_def)
  ultimately show ?thesis
    using False n assms(2-4) by (simp add: process_line_nonblank)
qed

lemma same_outline_loop:
  assumes "list_all2 same_outline ls ls'"
    and "tikz_nodes st = tikz_nodes st'" and "current_depth st = current_depth st'"
    and "angle_index st = angle_index st'"
  shows "tikz_nodes (foldl process_line st ls) = tikz_nodes (foldl process_line st' ls')
     \<and> current_depth (foldl process_line st ls) = current_depth (foldl process_line st' ls')
     \<and> angle_index (foldl process_line st ls) = angle_index (foldl process_line st' ls')"
  using assms
proof (induction ls ls' arbitrary: st st' rule: list_all2_induct)
  case Nil
  then show ?case by simp
next
  case (Cons l ls l' ls')
  from same_outline_step [OF Cons.hyps(1) Cons.prems]
  show ?case by (simp add: Cons.IH)
qed

lemma same_outline_emit:
  assumes "list_all2 same_outline lines lines'"
  shows "tikz_nodes (emit lines) = tikz_nodes (emit lines')"
proof -
  from assms have "list_all2 same_outline (tl lines) (tl lines')"
    by (cases lines; cases lines') simp_all
  from same_outline_loop [OF this, of "root_state (hd lines)" "root_state (hd lines')"]
  show ?thesis by (simp add: emit_def close_remaining_def root_state_fields)
qed

lemma same_outline_root:
  assumes "same_outline l l'"
  shows "root_node_definition l = root_node_definition l'"
  using assms by (simp add: root_node_definition_def Let_def case_prod_beta parse_line_rstrip same_outline_def)

lemma same_outline_before_table:
  assumes "lines \<noteq> []" and "list_all2 same_outline lines lines'"
  shows "before_table lines = before_table lines'
     \<and> generate_tikz_code lines
         = before_table lines @ generate_latex_table (table_data (emit lines)) @ LATEX_END
     \<and> generate_tikz_code lines'
         = before_table lines' @ generate_latex_table (table_data (emit lines')) @ LATEX_END"
proof -
  from assms obtain l ls l' ls' where ls: "lines = l # ls" "lines' = l' # ls'" "same_outline l l'"
    by (cases lines; cases lines') auto
  have "root_node_definition (hd lines) = root_node_definition (hd lines')"
    using ls by (simp add: same_outline_root)
  moreover have "tikz_nodes (emit lines) = tikz_nodes (emit lines')"
    using assms(2) by (rule same_outline_emit)
  ultimately have "before_table lines = before_table lines'"
    by (simp add: before_table_def)
  moreover have "generate_tikz_code lines
         = before_table lines @ generate_latex_table (table_data (emit lines)) @ LATEX_END"
    using ls(1) by (simp add: generate_tikz_code_def before_table_def Let_def)
  moreover have "generate_tikz_code lines'
         = before_table lines' @ generate_latex_table (table_data (emit lines')) @ LATEX_END"
    using ls(2) by (simp add: generate_tikz_code_def before_table_def Let_def)
  ultimately show ?thesis by blast
qed

text \<open>
  Lines as read that differ only after their first delimiter have the same label and
  the same indentation level, when the text before the delimiter is not blank and the
  descriptions are both blank or both not blank: the delimiter found in the line is
  the one found in the stripped line.
\<close>

lemma cut_first_suffix:
  assumes "sep \<noteq> []" and "cut_first sep (a @ sep @ b) = Some (a, b)"
  shows "cut_first sep (a @ sep @ b') = Some (a, b')"
  using assms(2)
proof (induction a)
  case Nil
  from assms(1) show ?case by (cases sep) simp_all
next
  case (Cons c a)
  have t: "take (length sep) (c # a @ sep @ b') = take (length sep) (c # a @ sep @ b)"
    by (simp add: take_Cons' )
  from Cons.prems have n: "take (length sep) (c # a @ sep @ b) \<noteq> sep"
    by (auto split: if_splits)
  with Cons.prems have "cut_first sep (a @ sep @ b) = Some (a, b)"
    by (auto split: if_splits option.splits)
  then have "cut_first sep (a @ sep @ b') = Some (a, b')" by (rule Cons.IH)
  with n t show ?case by simp
qed

lemma cut_first_drop_prefix:
  "cut_first sep (w @ s) = Some (w @ a, b) \<Longrightarrow> cut_first sep s = Some (a, b)"
proof (induction w)
  case Nil
  then show ?case by simp
next
  case (Cons c w)
  from Cons.prems have "cut_first sep (w @ s) = Some (w @ a, b)"
    by (auto split: if_splits option.splits)
  then show ?case by (rule Cons.IH)
qed


lemma not_blank_iff: "\<not> is_blank s \<longleftrightarrow> (\<exists>c \<in> set s. \<not> isspace c)"
  by (simp add: is_blank_def strip_Nil_iff)

lemma rstrip_append_not_blank: "\<not> is_blank ys \<Longrightarrow> rstrip (xs @ ys) = xs @ rstrip ys"
proof -
  assume "\<not> is_blank ys"
  then obtain c where "c \<in> set (rev ys)" "\<not> isspace c" by (auto simp: not_blank_iff)
  then have "dropWhile isspace (rev ys @ rev xs) = dropWhile isspace (rev ys) @ rev xs"
    by (rule dropWhile_append1)
  then show ?thesis by (simp add: rstrip_def)
qed

lemma rstrip_append_blank: "is_blank ws \<Longrightarrow> rstrip (xs @ ws) = rstrip xs"
proof -
  assume "is_blank ws"
  then have "\<And>c. c \<in> set (rev ws) \<Longrightarrow> isspace c" by (simp add: is_blank_def strip_Nil_iff)
  then have "dropWhile isspace (rev ws @ rev xs) = dropWhile isspace (rev xs)"
    by (rule dropWhile_append2)
  then show ?thesis by (simp add: rstrip_def)
qed

lemma lstrip_append_not_blank: "\<not> is_blank xs \<Longrightarrow> lstrip (xs @ ys) = lstrip xs @ ys"
proof -
  assume "\<not> is_blank xs"
  then obtain c where "c \<in> set xs" "\<not> isspace c" by (auto simp: not_blank_iff)
  then show ?thesis unfolding lstrip_def by (rule dropWhile_append1)
qed

lemma leading_spaces_append:
  assumes "\<not> is_blank pre"
  shows "spec_leading_spaces (pre @ rest) = spec_leading_spaces pre"
proof -
  from assms obtain c where c: "c \<in> set pre" "\<not> isspace c" by (auto simp: not_blank_iff)
  from c(2) have "\<not> (c = 32 \<or> c = 160)" by (auto simp: isspace_def)
  with c(1) have "takeWhile (\<lambda>c. c = 32 \<or> c = 160) (pre @ rest)
      = takeWhile (\<lambda>c. c = 32 \<or> c = 160) pre"
    by (intro takeWhile_append1 [of c]) auto
  then show ?thesis by (simp add: spec_leading_spaces_def)
qed


lemma label_of_cut_blank:
  assumes c: "cut_first (py '' - '') l = Some (pre, d)" and b: "is_blank d"
  shows "parse_line l = parse_line (pre @ py '' -'')"
proof -
  have "l = pre @ py '' - '' @ d"
    using c by (rule cut_first_Some)
  then have l: "l = (pre @ py '' -'') @ (py '' '' @ d)" by simp
  from b have "is_blank (py '' '' @ d)"
    by (simp add: is_blank_def strip_Nil_iff isspace_def)
  then have "rstrip ((pre @ py '' -'') @ (py '' '' @ d)) = rstrip (pre @ py '' -'')"
    by (rule rstrip_append_blank)
  then have "parse_line (rstrip l) = parse_line (rstrip (pre @ py '' -''))"
    by (simp only: l)
  then show ?thesis by (simp only: parse_line_rstrip)
qed


lemma label_of_cut_not_blank:
  assumes c: "cut_first (py '' - '') l = Some (pre, d)" and nb: "\<not> is_blank pre"
    and nd: "\<not> is_blank d"
  shows "parse_line l = (strip (lstrip pre), strip (rstrip d))"
proof -
  have l: "l = pre @ py '' - '' @ d"
    using c by (rule cut_first_Some)
  have "rstrip ((pre @ py '' - '') @ d) = (pre @ py '' - '') @ rstrip d"
    using nd by (rule rstrip_append_not_blank)
  then have r: "rstrip l = pre @ py '' - '' @ rstrip d"
    by (simp only: l append_assoc)
  have "lstrip (pre @ (py '' - '' @ rstrip d)) = lstrip pre @ (py '' - '' @ rstrip d)"
    using nb by (rule lstrip_append_not_blank)
  then have s: "strip l = lstrip pre @ py '' - '' @ rstrip d"
    by (simp only: strip_def r)
  have "takeWhile isspace pre @ lstrip pre = pre" by (simp add: lstrip_def)
  then have "cut_first (py '' - '') (takeWhile isspace pre @ (lstrip pre @ py '' - '' @ d))
        = Some (takeWhile isspace pre @ lstrip pre, d)"
    using c by (simp only: l append_assoc [symmetric])
  then have "cut_first (py '' - '') (lstrip pre @ py '' - '' @ d) = Some (lstrip pre, d)"
    by (rule cut_first_drop_prefix)
  then have k: "cut_first (py '' - '') (lstrip pre @ py '' - '' @ rstrip d)
        = Some (lstrip pre, rstrip d)"
    by (rule cut_first_suffix [rotated]) simp
  show ?thesis
    by (simp only: parse_line_def Let_def s split1_def k) simp
qed


lemma description_same_outline:
  assumes "same_up_to_description l l'"
  shows "same_outline l l'"
proof (cases "cut_first (py '' - '') l")
  case None
  with assms have "l' = l" by (simp add: same_up_to_description_def)
  then show ?thesis by (simp add: same_outline_def)
next
  case (Some a)
  obtain pre d where a: "a = (pre, d)" by (cases a)
  with Some have c: "cut_first (py '' - '') l = Some (pre, d)" by simp
  with assms obtain d' where c': "cut_first (py '' - '') l' = Some (pre, d')"
    and nb: "\<not> is_blank pre" and bl: "is_blank d = is_blank d'"
    by (auto simp: same_up_to_description_def split: option.splits)
  have l: "l = pre @ py '' - '' @ d" using c by (rule cut_first_Some)
  have l': "l' = pre @ py '' - '' @ d'" using c' by (rule cut_first_Some)
  have "fst (parse_line l) = fst (parse_line l')"
  proof (cases "is_blank d")
    case True
    with bl have "is_blank d'" by simp
    then show ?thesis
      using label_of_cut_blank [OF c True] label_of_cut_blank [OF c'] by simp
  next
    case False
    with bl have "\<not> is_blank d'" by simp
    then show ?thesis
      using label_of_cut_not_blank [OF c nb False] label_of_cut_not_blank [OF c' nb] by simp
  qed
  moreover have "spec_leading_spaces l = spec_leading_spaces l'"
    by (simp only: l l' leading_spaces_append [OF nb])
  ultimately show ?thesis by (simp only: same_outline_def indentation_leading simp_thms)
qed

text \<open>
  Claim C10, as amended. Two lists of lines of the same length whose lines differ, one
  by one, only after their first delimiter, where the text before the delimiter is not
  blank and the two descriptions are both blank or both not blank, give the same text
  before the table: header, root node, branches and the text that ends the picture.
  What \<open>generate_tikz_code\<close> returns is that text, the table and \<open>LATEX_END\<close>, so
  such descriptions reach the table only.
\<close>

theorem descriptions_only_in_table:
  assumes "lines \<noteq> []" and "list_all2 same_up_to_description lines lines'"
  shows "before_table lines = before_table lines'
     \<and> generate_tikz_code lines
         = before_table lines @ generate_latex_table (table_data (emit lines)) @ LATEX_END
     \<and> generate_tikz_code lines'
         = before_table lines' @ generate_latex_table (table_data (emit lines')) @ LATEX_END"
proof -
  from assms(2) have "list_all2 same_outline lines lines'"
    by (rule list_all2_mono) (rule description_same_outline)
  with assms(1) show ?thesis by (rule same_outline_before_table)
qed

lemma blank_description_runs:
  "emitted [py ''Root'', py ''    A - x'']
     = [ChildAngle 1 150, Concept 1 (py ''A''), FinalClosing 1]"
  "emitted [py ''Root'', py ''    A - '']
     = [ChildAngle 1 150, Concept 1 (py ''A -''), FinalClosing 1]"
  by (simp_all add: run_simps line_simps)

text \<open>
  Claim C10 as stated fails: the lines \<open>A - x\<close> and \<open>A - \<close>, both after four spaces,
  differ only after their first delimiter, but the line is stripped before it is cut,
  so the second has no delimiter left and its label is \<open>A -\<close>: the text before the
  table is not the same.
\<close>

theorem descriptions_counterexample:
  "list_all2 differ_after_delimiter [py ''Root'', py ''    A - x''] [py ''Root'', py ''    A - '']
   \<and> before_table [py ''Root'', py ''    A - x''] \<noteq> before_table [py ''Root'', py ''    A - '']
   \<and> concat (map render (emitted [py ''Root'', py ''    A - x'']))
       = py ''    child[grow=150] {\<newline>        node[concept] {A}} ''
   \<and> concat (map render (emitted [py ''Root'', py ''    A - '']))
       = py ''    child[grow=150] {\<newline>        node[concept] {A -}} ''"
proof -
  have d: "list_all2 differ_after_delimiter
      [py ''Root'', py ''    A - x''] [py ''Root'', py ''    A - '']"
    by (simp add: differ_after_delimiter_def)
  have i: "indent (Suc 0) = [32, 32, 32, 32]"
    "indent (Suc (Suc 0)) = [32, 32, 32, 32, 32, 32, 32, 32]" "decimal 150 = [49, 53, 48]"
    by (simp_all add: indent_def decimal.simps)
  have a: "concat (map render (emitted [py ''Root'', py ''    A - x'']))
       = py ''    child[grow=150] {\<newline>        node[concept] {A}} ''"
    unfolding blank_description_runs by (simp add: i)
  have b: "concat (map render (emitted [py ''Root'', py ''    A - '']))
       = py ''    child[grow=150] {\<newline>        node[concept] {A -}} ''"
    unfolding blank_description_runs by (simp add: i)
  have e: "emitted [py ''Root'', py ''    A - x''] = tikz_nodes (emit [py ''Root'', py ''    A - x''])"
    "emitted [py ''Root'', py ''    A - ''] = tikz_nodes (emit [py ''Root'', py ''    A - ''])"
    by (simp_all add: emitted_def)
  have "before_table [py ''Root'', py ''    A - x''] \<noteq> before_table [py ''Root'', py ''    A - '']"
    unfolding before_table_def a [unfolded e] b [unfolded e] by simp
  with d a b show ?thesis by blast
qed


theorem descriptions_only_in_table_witness:
  "list_all2 same_up_to_description
     [py ''Root - the root'', py ''    A - first - one'', py ''        B'']
     [py ''Root - other'', py ''    A - second'', py ''        B'']
   \<and> before_table [py ''Root - the root'', py ''    A - first - one'', py ''        B'']
       = before_table [py ''Root - other'', py ''    A - second'', py ''        B'']
   \<and> table_data (emit [py ''Root - the root'', py ''    A - first - one'', py ''        B''])
       \<noteq> table_data (emit [py ''Root - other'', py ''    A - second'', py ''        B''])"
proof -
  have h: "list_all2 same_up_to_description
     [py ''Root - the root'', py ''    A - first - one'', py ''        B'']
     [py ''Root - other'', py ''    A - second'', py ''        B'']"
    by (simp add: same_up_to_description_def line_simps)
  have n: "[py ''Root - the root'', py ''    A - first - one'', py ''        B''] \<noteq> []"
    by simp
  have d: "table_data (emit [py ''Root - the root'', py ''    A - first - one'', py ''        B''])
       \<noteq> table_data (emit [py ''Root - other'', py ''    A - second'', py ''        B''])"
    by (simp add: run_simps line_simps)
  from descriptions_only_in_table [OF n h] h d show ?thesis by blast
qed

end
